theory Spec2Isabelle
  imports Main "HOL-Library.Word"
begin

section \<open>Time values (Go's \<open>time.Time\<close> and \<open>time.Duration\<close>)\<close>

text \<open>
  A \<open>time.Time\<close> is modelled by the number of nanoseconds since Go's zero instant, so the
  zero value of the struct is \<open>0\<close> and \<open>IsZero\<close> tests for it. The wall and the monotonic
  reading of a Go time are taken to agree on the order of instants, so \<open>Before\<close> and
  \<open>After\<close> are the strict order of the integers. A \<open>time.Duration\<close> is a signed 64-bit
  count of nanoseconds; \<open>Sub\<close> saturates at its bounds as Go's does.
\<close>

type_synonym Time = int
type_synonym Duration = int

definition IsZero :: "Time \<Rightarrow> bool" where
  "IsZero t = (t = 0)"

definition Before :: "Time \<Rightarrow> Time \<Rightarrow> bool" where
  "Before t u = (t < u)"

definition After :: "Time \<Rightarrow> Time \<Rightarrow> bool" where
  "After t u = (u < t)"

definition Add :: "Time \<Rightarrow> Duration \<Rightarrow> Time" where
  "Add t d = t + d"

definition minDuration :: Duration where
  "minDuration = - (2 ^ 63)"

definition maxDuration :: Duration where
  "maxDuration = 2 ^ 63 - 1"

definition Sub :: "Time \<Rightarrow> Time \<Rightarrow> Duration" where
  "Sub t u =
     (if t - u < minDuration then minDuration
      else if maxDuration < t - u then maxDuration
      else t - u)"

definition Second :: Duration where
  "Second = 1000000000"

text \<open>
  \<open>interval := time.Duration(keepAlive) * time.Second\<close>: the 16-bit keepalive is widened
  to 64 bits and multiplied there, read back as a signed number.
\<close>

definition keepAlive_interval :: "16 word \<Rightarrow> Duration" where
  "keepAlive_interval keepAlive = sint ((ucast keepAlive :: 64 word) * 1000000000)"

section \<open>Errors (Go's \<open>error\<close> values built by \<open>fmt.Errorf\<close>)\<close>

text \<open>
  \<open>fmt.Errorf\<close> without \<open>%w\<close> gives an error that is only its message; with \<open>%w\<close> it
  gives an error holding the formatted message and the wrapped cause, which
  \<open>Unwrap\<close> returns. A nil \<open>error\<close> is \<open>None\<close>.
\<close>

datatype error = errorString string | wrapError string error

fun Error :: "error \<Rightarrow> string" where
  "Error (errorString s) = s"
| "Error (wrapError msg cause) = msg"

fun Unwrap :: "error \<Rightarrow> error option" where
  "Unwrap (errorString s) = None"
| "Unwrap (wrapError msg cause) = Some cause"

definition Errorf_w :: "string \<Rightarrow> error \<Rightarrow> error" where
  "Errorf_w prefix err = wrapError (prefix @ Error err) err"

section \<open>The pinger (src/paho/pinger.go)\<close>

text \<open>
  The fields of \<open>DefaultPinger\<close>. The logger \<open>debug\<close> is not one of them: a call of it
  that returns changes nothing here, and \<open>NewDefaultPinger\<close> installs a logger whose
  calls return. A call that panics instead (a nil logger does) matters in one place,
  line 119 inside the loop, where the panic unwinds through \<open>Run\<close> after the deferred
  function was registered; that turn is \<open>timer_case_panic\<close> below. The call at line 73
  comes before the flag is touched, and the one at line 135 is in the emitter's own
  goroutine. The mutex \<open>mu\<close> is modelled by making each critical section one step.
\<close>

record DefaultPinger =
  lastPacketSent :: Time
  lastPacketReceived :: Time
  lastPingResponse :: Time
  running :: bool

definition NewDefaultPinger :: DefaultPinger where
  "NewDefaultPinger =
     \<lparr>lastPacketSent = 0, lastPacketReceived = 0, lastPingResponse = 0, running = False\<rparr>"

text \<open>
  What one call of \<open>Run\<close> that reached its loop owns: its context (is \<open>ctx.Done()\<close>
  closed), the transport, \<open>interval\<close>, the duration the timer was last armed with,
  \<open>lastPingSent\<close>, the buffer of \<open>errCh\<close>, and the emitter goroutines it spawned:
  \<open>pingreqs\<close> counts the \<open>WriteTo(conn)\<close> calls started, \<open>writing\<close> those that have not
  returned, \<open>blocked\<close> holds the errors of emitters waiting to send on a full \<open>errCh\<close>.
  \<open>returned\<close> is \<open>None\<close> while the loop runs and afterwards tells how \<open>Run\<close> was left:
  by a return, with the \<open>error\<close> returned, or by a panic, with no value.
\<close>

datatype exit = Returns "error option" | Panics

record activation =
  ctx_done :: bool
  conn :: nat
  interval :: Duration
  timer :: Duration
  lastPingSent :: Time
  errCh :: "error list"
  pingreqs :: nat
  writing :: nat
  blocked :: "error list"
  returned :: "exit option"

definition errCh_cap :: nat where
  "errCh_cap = 1"

datatype entry = Return "error option" | Loop activation

text \<open>
  \<open>Run\<close> up to its loop (lines 72 to 98). The context is a parameter the entry does
  not look at; a nil \<open>conn\<close> is \<open>None\<close>. The result is the pinger after the entry and
  either the value returned at once or the state the loop starts in.
\<close>

definition Run_entry ::
  "DefaultPinger \<Rightarrow> bool \<Rightarrow> nat option \<Rightarrow> 16 word \<Rightarrow> entry \<times> DefaultPinger" where
  "Run_entry p ctx conn' keepAlive =
     (if keepAlive = 0 then (Return None, p)
      else case conn' of
        None \<Rightarrow> (Return (Some (errorString ''conn is nil'')), p)
      | Some c \<Rightarrow>
          if running p then (Return (Some (errorString ''Run() already in progress'')), p)
          else (Loop \<lparr>ctx_done = ctx, conn = c, interval = keepAlive_interval keepAlive,
                      timer = 0, lastPingSent = 0, errCh = [], pingreqs = 0, writing = 0,
                      blocked = [], returned = None\<rparr>,
                p\<lparr>running := True\<rparr>))"

text \<open>The deferred function of \<open>Run\<close> (lines 86 to 90).\<close>

definition deferred :: "DefaultPinger \<Rightarrow> DefaultPinger" where
  "deferred p = p\<lparr>running := False\<rparr>"

text \<open>The deadline computed under the lock on a timer tick (lines 110 to 115).\<close>

definition pingDue :: "DefaultPinger \<Rightarrow> Duration \<Rightarrow> Time" where
  "pingDue p iv =
     (if Before (lastPacketSent p) (lastPacketReceived p) then Add (lastPacketSent p) iv
      else Add (lastPacketReceived p) iv)"

text \<open>
  One turn of the \<open>select\<close> loop. The case taken is given; it must be ready: the
  context done, the timer delivering \<open>t\<close> (the timer is armed whenever the loop waits),
  or an error in the buffer of \<open>errCh\<close>. \<open>now\<close> is what \<open>time.Now()\<close> reads at line 128.
  A receive on \<open>errCh\<close> frees the slot, which the first blocked sender then fills. On a
  return the deferred function runs.
\<close>

datatype select_case = ctxDone | timerC Time | errChRecv

definition timer_case ::
  "DefaultPinger \<Rightarrow> activation \<Rightarrow> Time \<Rightarrow> Time \<Rightarrow> DefaultPinger \<times> activation" where
  "timer_case p l t now =
     (let lastPingResponse' = lastPingResponse p;
          due = pingDue p (interval l)
      in if \<not> IsZero (lastPingSent l) \<and> After (lastPingSent l) lastPingResponse'
         then (deferred p, l\<lparr>returned := Some (Returns (Some (errorString ''PINGRESP timed out'')))\<rparr>)
         else if Before t due
         then (p, l\<lparr>timer := Sub due t\<rparr>)
         else (p, l\<lparr>lastPingSent := now, pingreqs := Suc (pingreqs l),
                     writing := Suc (writing l), timer := interval l\<rparr>))"

definition Run_select ::
  "DefaultPinger \<Rightarrow> activation \<Rightarrow> Time \<Rightarrow> select_case \<Rightarrow> (DefaultPinger \<times> activation) option" where
  "Run_select p l now c =
     (if returned l \<noteq> None then None
      else case c of
        ctxDone \<Rightarrow>
          if ctx_done l then Some (deferred p, l\<lparr>returned := Some (Returns None)\<rparr>) else None
      | timerC t \<Rightarrow> Some (timer_case p l t now)
      | errChRecv \<Rightarrow>
          (case errCh l of
             [] \<Rightarrow> None
           | err # rest \<Rightarrow>
               Some (deferred p,
                     l\<lparr>errCh := rest @ take 1 (blocked l), blocked := drop 1 (blocked l),
                       returned := Some (Returns (Some err))\<rparr>)))"

text \<open>
  The turn of the timer case in which the logger call of line 119 panics. It is reached
  as the return of line 120 is: in the loop, with a ping sent and no PINGRESP since.
  \<open>Run\<close> returns no value; the panic runs the deferred function on its way out.
\<close>

definition timer_case_panic ::
  "DefaultPinger \<Rightarrow> activation \<Rightarrow> (DefaultPinger \<times> activation) option" where
  "timer_case_panic p l =
     (if returned l = None \<and> \<not> IsZero (lastPingSent l)
         \<and> After (lastPingSent l) (lastPingResponse p)
      then Some (deferred p, l\<lparr>returned := Some Panics\<rparr>)
      else None)"

text \<open>
  An emitter goroutine's \<open>WriteTo(conn)\<close> returns (lines 134 to 137): with no error the
  goroutine ends; with an error it sends the wrapped error on \<open>errCh\<close>, which takes it
  when the buffer has room and otherwise leaves the goroutine blocked on the send.
\<close>

definition emitter_done :: "activation \<Rightarrow> error option \<Rightarrow> activation option" where
  "emitter_done l res =
     (if writing l = 0 then None
      else case res of
        None \<Rightarrow> Some (l\<lparr>writing := writing l - 1\<rparr>)
      | Some err \<Rightarrow>
          (let e = Errorf_w ''failed to send PINGREQ: '' err
           in if length (errCh l) < errCh_cap
              then Some (l\<lparr>writing := writing l - 1, errCh := errCh l @ [e]\<rparr>)
              else Some (l\<lparr>writing := writing l - 1, blocked := blocked l @ [e]\<rparr>)))"

text \<open>The traffic notifications (lines 146 to 162); \<open>now\<close> is what \<open>time.Now()\<close> reads.\<close>

definition PacketSent :: "Time \<Rightarrow> DefaultPinger \<Rightarrow> DefaultPinger" where
  "PacketSent now p = p\<lparr>lastPacketSent := now\<rparr>"

definition PacketReceived :: "Time \<Rightarrow> DefaultPinger \<Rightarrow> DefaultPinger" where
  "PacketReceived now p = p\<lparr>lastPacketReceived := now\<rparr>"

definition PingResp :: "Time \<Rightarrow> DefaultPinger \<Rightarrow> DefaultPinger" where
  "PingResp now p = p\<lparr>lastPingResponse := now\<rparr>"

section \<open>The pinger among its callers\<close>

text \<open>
  The pinger is shared by the goroutines that call \<open>Run\<close>, the client that reports its
  traffic, and the emitters. Each step below is one of their atomic actions: a clock
  advance, a call of \<open>Run\<close> up to its loop, the cancellation of an activation's context,
  one turn of an activation's \<open>select\<close> (with the logger returning, or panicking at
  line 119), the return of an emitter's write, or a traffic notification. \<open>time.Now()\<close> reads the clock, which never goes back. \<open>acts\<close> holds the
  calls of \<open>Run\<close> that reached the loop, in the order they were made; a call that
  returns at once leaves no trace but its result. A turn of the \<open>select\<close> is one step,
  its deferred reset included: after the lock is released at line 116 the turn works on
  the values it read and on its own variables only, and until the reset the flag is
  still set. The time \<open>t\<close> a tick delivers is not tied to the clock, so the runs of the
  system are at least those of the program.
\<close>

record system =
  clock :: Time
  pinger :: DefaultPinger
  acts :: "activation list"

datatype event =
    Advance nat
  | CallRun bool "nat option" "16 word"
  | Cancel nat
  | Select nat select_case
  | LoggerPanic nat
  | WriteDone nat "error option"
  | NotifySent
  | NotifyReceived
  | NotifyPingResp

definition boot :: "Time \<Rightarrow> system" where
  "boot c = \<lparr>clock = c, pinger = NewDefaultPinger, acts = []\<rparr>"

fun step :: "system \<Rightarrow> event \<Rightarrow> system option" where
  "step s (Advance d) = Some (s\<lparr>clock := clock s + int d\<rparr>)"
| "step s (CallRun ctx conn' keepAlive) =
     (case Run_entry (pinger s) ctx conn' keepAlive of
        (Return r, p') \<Rightarrow> Some (s\<lparr>pinger := p'\<rparr>)
      | (Loop l, p') \<Rightarrow> Some (s\<lparr>pinger := p', acts := acts s @ [l]\<rparr>))"
| "step s (Cancel i) =
     (if i < length (acts s)
      then Some (s\<lparr>acts := (acts s)[i := (acts s ! i)\<lparr>ctx_done := True\<rparr>]\<rparr>)
      else None)"
| "step s (Select i c) =
     (if i < length (acts s)
      then case Run_select (pinger s) (acts s ! i) (clock s) c of
             None \<Rightarrow> None
           | Some (p', l') \<Rightarrow> Some (s\<lparr>pinger := p', acts := (acts s)[i := l']\<rparr>)
      else None)"
| "step s (LoggerPanic i) =
     (if i < length (acts s)
      then case timer_case_panic (pinger s) (acts s ! i) of
             None \<Rightarrow> None
           | Some (p', l') \<Rightarrow> Some (s\<lparr>pinger := p', acts := (acts s)[i := l']\<rparr>)
      else None)"
| "step s (WriteDone i res) =
     (if i < length (acts s)
      then case emitter_done (acts s ! i) res of
             None \<Rightarrow> None
           | Some l' \<Rightarrow> Some (s\<lparr>acts := (acts s)[i := l']\<rparr>)
      else None)"
| "step s NotifySent = Some (s\<lparr>pinger := PacketSent (clock s) (pinger s)\<rparr>)"
| "step s NotifyReceived = Some (s\<lparr>pinger := PacketReceived (clock s) (pinger s)\<rparr>)"
| "step s NotifyPingResp = Some (s\<lparr>pinger := PingResp (clock s) (pinger s)\<rparr>)"

fun exec :: "system \<Rightarrow> event list \<Rightarrow> system option" where
  "exec s [] = Some s"
| "exec s (e # es) = (case step s e of None \<Rightarrow> None | Some s' \<Rightarrow> exec s' es)"

text \<open>An activation is in its loop until \<open>Run\<close> is left, by a return or by a panic.\<close>

definition in_loop :: "activation \<Rightarrow> bool" where
  "in_loop l = (returned l = None)"

text \<open>No stored timestamp is ahead of the clock, and the clock is past the zero instant.\<close>

definition clock_ok :: "system \<Rightarrow> bool" where
  "clock_ok s =
     (0 < clock s \<and> lastPacketSent (pinger s) \<le> clock s \<and>
      lastPacketReceived (pinger s) \<le> clock s \<and> lastPingResponse (pinger s) \<le> clock s)"

text \<open>
  The running flag has one holder: the activations in their loop are one when the flag
  is set and none when it is clear.
\<close>

definition one_holder :: "system \<Rightarrow> bool" where
  "one_holder s = (length (filter in_loop (acts s)) = (if running (pinger s) then 1 else 0))"

text \<open>
  Between two states of the pinger no stored timestamp went back, and none that was set
  became the zero time again.
\<close>

definition stamps_kept :: "DefaultPinger \<Rightarrow> DefaultPinger \<Rightarrow> bool" where
  "stamps_kept p q =
     (lastPacketSent p \<le> lastPacketSent q \<and> lastPacketReceived p \<le> lastPacketReceived q \<and>
      lastPingResponse p \<le> lastPingResponse q \<and>
      (lastPacketSent p \<noteq> 0 \<longrightarrow> lastPacketSent q \<noteq> 0) \<and>
      (lastPacketReceived p \<noteq> 0 \<longrightarrow> lastPacketReceived q \<noteq> 0) \<and>
      (lastPingResponse p \<noteq> 0 \<longrightarrow> lastPingResponse q \<noteq> 0))"

text \<open>
  What has become of the write error \<open>e\<close> an emitter put on \<open>errCh\<close>: while \<open>Run\<close> is
  in its loop, \<open>e\<close> is the next error the channel delivers; once \<open>Run\<close> is left, it
  returned \<open>e\<close>, or nil on a context that is done, or it left on the PINGRESP timeout,
  by the error or by the panic of the logger call.
\<close>

definition write_error_kept :: "error \<Rightarrow> activation \<Rightarrow> bool" where
  "write_error_kept e l =
     (case returned l of
        None \<Rightarrow> (case errCh l of [] \<Rightarrow> False | x # rest \<Rightarrow> x = e)
      | Some (Returns None) \<Rightarrow> ctx_done l
      | Some (Returns (Some x)) \<Rightarrow> x = e \<or> x = errorString ''PINGRESP timed out''
      | Some Panics \<Rightarrow> True)"

section \<open>The CONNECT packet (package paho, \<open>Connect.InitProperties\<close>)\<close>

text \<open>
  Modelled from the spec: the type \<open>packets.Properties\<close> is declared in package
  \<open>packets\<close>, which is not among the sources verified here. The record below has the fields that
  \<open>InitProperties\<close> reads, with the types their uses fix: the two request flags are the
  optional source fields of the spec, pointers to a byte that may be nil. The user
  properties and their conversion \<open>UserPropertiesFromPacketUser\<close> are parameters.
\<close>

record 'pu packets_Properties =
  pk_SessionExpiryInterval :: "32 word option"
  pk_AuthMethod :: string
  pk_AuthData :: "8 word list"
  pk_WillDelayInterval :: "32 word option"
  pk_RequestResponseInfo :: "8 word option"
  pk_RequestProblemInfo :: "8 word option"
  pk_ReceiveMaximum :: "16 word option"
  pk_TopicAliasMaximum :: "16 word option"
  pk_MaximumPacketSize :: "32 word option"
  pk_User :: 'pu

text \<open>The structs \<open>ConnectProperties\<close> and \<open>Connect\<close>; the will's types are parameters.\<close>

record 'u ConnectProperties =
  AuthData :: "8 word list"
  AuthMethod :: string
  SessionExpiryInterval :: "32 word option"
  WillDelayInterval :: "32 word option"
  ReceiveMaximum :: "16 word option"
  TopicAliasMaximum :: "16 word option"
  MaximumPacketSize :: "32 word option"
  User :: 'u
  RequestProblemInfo :: bool
  RequestResponseInfo :: bool

record ('u, 'wm, 'wp) Connect =
  Password :: "8 word list"
  Username :: string
  ClientID :: string
  Properties :: "'u ConnectProperties option"
  WillMessage :: "'wm option"
  WillProperties :: "'wp option"
  KeepAlive :: "16 word"
  CleanStart :: bool
  UsernameFlag :: bool
  PasswordFlag :: bool

text \<open>
  \<open>InitProperties\<close> (lines 54 to 74). A nil \<open>p\<close> and the read of \<open>*p.RequestProblemInfo\<close>
  through a nil pointer panic. The first \<open>if\<close> tests \<open>p.RequestResponseInfo\<close> and reads
  \<open>*p.RequestProblemInfo\<close>, as the source does.
\<close>

datatype panic = NilPointerDereference

definition InitProperties ::
  "('pu \<Rightarrow> 'u) \<Rightarrow> ('u, 'wm, 'wp) Connect \<Rightarrow> 'pu packets_Properties option
     \<Rightarrow> panic + ('u, 'wm, 'wp) Connect" where
  "InitProperties UserPropertiesFromPacketUser c p' =
     (case p' of
        None \<Rightarrow> Inl NilPointerDereference
      | Some p \<Rightarrow>
          (let props =
                 \<lparr>AuthData = pk_AuthData p,
                    AuthMethod = pk_AuthMethod p,
                    SessionExpiryInterval = pk_SessionExpiryInterval p,
                    WillDelayInterval = pk_WillDelayInterval p,
                    ReceiveMaximum = pk_ReceiveMaximum p,
                    TopicAliasMaximum = pk_TopicAliasMaximum p,
                    MaximumPacketSize = pk_MaximumPacketSize p,
                    User = UserPropertiesFromPacketUser (pk_User p),
                    RequestProblemInfo = True,
                    RequestResponseInfo = False\<rparr>;
               step1 =
                 (if pk_RequestResponseInfo p \<noteq> None
                  then (case pk_RequestProblemInfo p of
                          None \<Rightarrow> Inl NilPointerDereference
                        | Some b \<Rightarrow> Inr (props\<lparr>RequestResponseInfo := (b = 1)\<rparr>))
                  else Inr props)
           in case step1 of
                Inl e \<Rightarrow> Inl e
              | Inr props1 \<Rightarrow>
                  Inr (c\<lparr>Properties :=
                         Some (case pk_RequestProblemInfo p of
                                 None \<Rightarrow> props1
                               | Some b \<Rightarrow> props1\<lparr>RequestProblemInfo := (b = 1)\<rparr>)\<rparr>)))"

section \<open>The keepalive interval\<close>

text \<open>The 64-bit product never wraps: it is the keepalive in nanoseconds.\<close>

lemma ucast_keepAlive_uint: "uint ((ucast (K::16 word) :: 64 word)) = uint K"
  by (simp add: uint_up_ucast is_up)

lemma keepAlive_bound: "uint (K :: 16 word) < 65536"
  using uint_bounded[of K] by simp

lemma keepAlive_product_uint:
  "uint ((ucast (K::16 word) :: 64 word) * 1000000000) = uint K * 1000000000"
proof -
  have "uint K * 1000000000 < 2 ^ 64" using keepAlive_bound[of K] by simp
  moreover have "0 \<le> uint K * 1000000000" by simp
  ultimately have "(uint K * 1000000000) mod 2 ^ 64 = uint K * 1000000000" by simp
  thus ?thesis by (simp add: uint_word_ariths ucast_keepAlive_uint)
qed

lemma keepAlive_interval_eq: "keepAlive_interval K = int (unat K) * Second"
proof -
  have "uint K * 1000000000 < 2 ^ 63" using keepAlive_bound[of K] by simp
  moreover have "- (2 ^ 63) \<le> uint K * 1000000000"
  proof -
    have "(0::int) \<le> uint K * 1000000000" by simp
    moreover have "- (2 ^ 63) \<le> (0::int)" by simp
    ultimately show ?thesis by (rule order_trans[rotated])
  qed
  ultimately have "signed_take_bit 63 (uint K * 1000000000) = uint K * 1000000000"
    by (simp add: signed_take_bit_int_eq_self)
  thus ?thesis
    by (simp add: keepAlive_interval_def sint_uint keepAlive_product_uint Second_def)
qed

lemma keepAlive_interval_1: "keepAlive_interval 1 = 1000000000"
  by (simp add: keepAlive_interval_eq Second_def)

lemma keepAlive_interval_2: "keepAlive_interval 2 = 2000000000"
  by (simp add: keepAlive_interval_eq Second_def)

section \<open>The ping deadline\<close>

lemma pingDue_min: "pingDue p iv = min (lastPacketSent p) (lastPacketReceived p) + iv"
  by (simp add: pingDue_def Before_def Add_def min_def)

text \<open>
  Claim C1. For every state of the pinger and every keepalive \<open>K\<close>, the deadline the
  controller computes on a timer tick is the earlier of the last-sent and last-received
  timestamps plus \<open>K\<close> seconds, and the tick compares \<open>t\<close> with that deadline. A packet
  sent does not move the deadline past the last-received timestamp plus \<open>K\<close>.
\<close>

theorem ping_deadline_is_staler_plus_keepalive:
  "pingDue p (keepAlive_interval K) =
     min (lastPacketSent p) (lastPacketReceived p) + int (unat K) * Second
   \<and> timer_case p l t now =
       (if lastPingSent l \<noteq> 0 \<and> lastPingResponse p < lastPingSent l
        then (p\<lparr>running := False\<rparr>,
              l\<lparr>returned := Some (Returns (Some (errorString ''PINGRESP timed out'')))\<rparr>)
        else if t < min (lastPacketSent p) (lastPacketReceived p) + interval l
        then (p, l\<lparr>timer := Sub (min (lastPacketSent p) (lastPacketReceived p) + interval l) t\<rparr>)
        else (p, l\<lparr>lastPingSent := now, pingreqs := Suc (pingreqs l),
                    writing := Suc (writing l), timer := interval l\<rparr>))
   \<and> pingDue (PacketSent now p) (keepAlive_interval K)
       \<le> lastPacketReceived p + int (unat K) * Second"
  by (simp add: pingDue_min keepAlive_interval_eq PacketSent_def timer_case_def
      IsZero_def After_def Before_def deferred_def)

theorem ping_deadline_is_staler_plus_keepalive_witness:
  "pingDue \<lparr>lastPacketSent = 9000000000, lastPacketReceived = 4000000000,
             lastPingResponse = 0, running = True\<rparr> (keepAlive_interval 2)
     = 6000000000"
  using ping_deadline_is_staler_plus_keepalive
    [of "\<lparr>lastPacketSent = 9000000000, lastPacketReceived = 4000000000,
           lastPingResponse = 0, running = True\<rparr>" 2]
  by (simp add: Second_def)

section \<open>Entering \<open>Run\<close>\<close>

text \<open>
  Claim C5. Whatever the context and the transport, \<open>Run\<close> with keepalive 0 returns nil
  at once; the pinger, every activation and every emitter are as before, so nothing was
  written to a transport.
\<close>

theorem disabled_keepalive_returns_nil:
  "Run_entry p ctx conn' 0 = (Return None, p) \<and> step s (CallRun ctx conn' 0) = Some s"
  by (simp add: Run_entry_def)

theorem disabled_keepalive_returns_nil_witness:
  "Run_entry NewDefaultPinger True (Some 7) 0 = (Return None, NewDefaultPinger)
   \<and> step (boot 5) (CallRun True (Some 7) 0) = Some (boot 5)"
  using disabled_keepalive_returns_nil [of NewDefaultPinger True "Some 7" "boot 5"]
  by simp

text \<open>
  Claim C6. Whatever the context, \<open>Run\<close> with a nil transport and a keepalive other than
  0 returns the error "conn is nil"; the pinger, with its running flag, and everything
  else are as before.
\<close>

theorem nil_conn_rejected:
  "keepAlive \<noteq> 0 \<Longrightarrow>
     Run_entry p ctx None keepAlive = (Return (Some (errorString ''conn is nil'')), p)
     \<and> Error (errorString ''conn is nil'') = ''conn is nil''
     \<and> step s (CallRun ctx None keepAlive) = Some s"
  by (simp add: Run_entry_def)

theorem nil_conn_rejected_witness:
  "Run_entry NewDefaultPinger False None 30
     = (Return (Some (errorString ''conn is nil'')), NewDefaultPinger)
   \<and> step (boot 5) (CallRun False None 30) = Some (boot 5)"
  using nil_conn_rejected [of 30 NewDefaultPinger False "boot 5"] by simp

text \<open>
  Claim C10. The test of the keepalive comes before the test of the transport: with
  keepalive 0 and a nil transport \<open>Run\<close> returns nil, not the error "conn is nil".
\<close>

theorem keepalive_check_precedes_conn_check:
  "Run_entry p ctx None 0 = (Return None, p)
   \<and> fst (Run_entry p ctx None 0) \<noteq> Return (Some (errorString ''conn is nil''))
   \<and> step s (CallRun ctx None 0) = Some s"
  by (simp add: Run_entry_def)

theorem keepalive_check_precedes_conn_check_witness:
  "Run_entry NewDefaultPinger False None 0 = (Return None, NewDefaultPinger)
   \<and> step (boot 5) (CallRun False None 0) = Some (boot 5)"
  using keepalive_check_precedes_conn_check [of NewDefaultPinger False "boot 5"]
  by simp

section \<open>The timer tick\<close>

text \<open>
  Claim C3. On a timer tick of an activation in its loop, when a ping was sent
  (\<open>lastPingSent\<close> is not the zero time) and it is later than the last PINGRESP, \<open>Run\<close>
  returns the error "PINGRESP timed out" and clears the running flag, whatever the tick
  time, the clock and the last-sent and last-received timestamps are: the test comes
  before the deadline is compared.
\<close>

theorem unanswered_ping_times_out:
  assumes "returned l = None" and "lastPingSent l \<noteq> 0"
    and "lastPingResponse p < lastPingSent l"
  shows "Run_select p l now (timerC t) =
           Some (p\<lparr>running := False\<rparr>,
                 l\<lparr>returned := Some (Returns (Some (errorString ''PINGRESP timed out'')))\<rparr>)"
  using assms
  by (simp add: Run_select_def timer_case_def IsZero_def After_def deferred_def)

theorem unanswered_ping_times_out_witness:
  "Run_select
     \<lparr>lastPacketSent = 2900000000, lastPacketReceived = 2900000000,
        lastPingResponse = 1500000000, running = True\<rparr>
     \<lparr>ctx_done = False, conn = 7, interval = 1000000000, timer = 1000000000,
        lastPingSent = 2000000000, errCh = [], pingreqs = 1, writing = 0,
        blocked = [], returned = None\<rparr>
     3000000050 (timerC 3000000000)
   = Some (\<lparr>lastPacketSent = 2900000000, lastPacketReceived = 2900000000,
              lastPingResponse = 1500000000, running = False\<rparr>,
           \<lparr>ctx_done = False, conn = 7, interval = 1000000000, timer = 1000000000,
              lastPingSent = 2000000000, errCh = [], pingreqs = 1, writing = 0,
              blocked = [], returned = Some (Returns (Some (errorString ''PINGRESP timed out'')))\<rparr>)"
  using unanswered_ping_times_out
    [of "\<lparr>ctx_done = False, conn = 7, interval = 1000000000, timer = 1000000000,
        lastPingSent = 2000000000, errCh = [], pingreqs = 1, writing = 0,
        blocked = [], returned = None\<rparr>"
        "\<lparr>lastPacketSent = 2900000000, lastPacketReceived = 2900000000,
        lastPingResponse = 1500000000, running = True\<rparr>" 3000000050 3000000000]
  by simp

text \<open>
  Claim C9, as the code has it. On a timer tick at \<open>t\<close> of an activation in its loop
  with no unanswered ping and \<open>t\<close> not before the deadline, the controller records in
  \<open>lastPingSent\<close> the clock reading taken at that moment (\<open>time.Now()\<close>, not the tick's
  \<open>t\<close>), starts an emitter and arms the timer with the keepalive interval; the pinger
  is untouched. The write has not returned then, and whatever it returns later leaves
  \<open>lastPingSent\<close> as recorded.
\<close>

theorem ping_dispatch_records_clock_reading:
  assumes "returned l = None"
    and "lastPingSent l = 0 \<or> lastPingSent l \<le> lastPingResponse p"
    and "\<not> Before t (pingDue p (interval l))"
  shows "Run_select p l now (timerC t)
           = Some (p, l\<lparr>lastPingSent := now, pingreqs := Suc (pingreqs l),
                        writing := Suc (writing l), timer := interval l\<rparr>)
     \<and> map_option lastPingSent
          (emitter_done (l\<lparr>lastPingSent := now, pingreqs := Suc (pingreqs l),
                           writing := Suc (writing l), timer := interval l\<rparr>) res)
         = Some now"
  using assms
  by (auto simp: Run_select_def timer_case_def IsZero_def After_def emitter_done_def Let_def
      split: option.splits)

theorem ping_dispatch_records_clock_reading_witness:
  "Run_select NewDefaultPinger
     \<lparr>ctx_done = False, conn = 7, interval = 1000000000, timer = 0,
        lastPingSent = 0, errCh = [], pingreqs = 0, writing = 0,
        blocked = [], returned = None\<rparr>
     2000000050 (timerC 2000000000)
   = Some (NewDefaultPinger,
           \<lparr>ctx_done = False, conn = 7, interval = 1000000000, timer = 1000000000,
              lastPingSent = 2000000050, errCh = [], pingreqs = 1, writing = 1,
              blocked = [], returned = None\<rparr>)
   \<and> map_option lastPingSent
        (emitter_done
           \<lparr>ctx_done = False, conn = 7, interval = 1000000000, timer = 1000000000,
              lastPingSent = 2000000050, errCh = [], pingreqs = 1, writing = 1,
              blocked = [], returned = None\<rparr>
           (Some (errorString ''connection reset'')))
       = Some 2000000050"
  using ping_dispatch_records_clock_reading
    [of "\<lparr>ctx_done = False, conn = 7, interval = 1000000000, timer = 0,
        lastPingSent = 0, errCh = [], pingreqs = 0, writing = 0,
        blocked = [], returned = None\<rparr>" NewDefaultPinger 2000000000 2000000050
        "Some (errorString ''connection reset'')"]
  by (simp add: NewDefaultPinger_def pingDue_def Before_def Add_def)

text \<open>
  The tick time and the recorded time differ: the timer fires at 2000000000, the
  controller takes the tick 50 nanoseconds later and records 2000000050.
\<close>

theorem lastPingSent_is_not_the_tick_time:
  "exec (boot 2000000000)
     [CallRun False (Some 7) 1, Advance 50, Select 0 (timerC 2000000000)]
   = Some \<lparr>clock = 2000000050,
      pinger = \<lparr>lastPacketSent = 0, lastPacketReceived = 0, lastPingResponse = 0,
                 running = True\<rparr>,
      acts = [\<lparr>ctx_done = False, conn = 7, interval = 1000000000, timer = 1000000000,
                lastPingSent = 2000000050, errCh = [], pingreqs = 1, writing = 1,
                blocked = [], returned = None\<rparr>]\<rparr>
   \<and> (2000000050::int) \<noteq> 2000000000"
  by (simp add: boot_def NewDefaultPinger_def Run_entry_def Run_select_def timer_case_def
      pingDue_def Before_def After_def Add_def IsZero_def keepAlive_interval_1)

section \<open>Write failures\<close>

lemma Run_select_keeps:
  assumes "write_error_kept e l" and "Run_select p l now c = Some (p', l')"
  shows "write_error_kept e l'"
  using assms
  by (auto simp: write_error_kept_def Run_select_def timer_case_def Let_def
      split: if_splits select_case.splits list.splits option.splits exit.splits)

lemma timer_case_panic_keeps:
  assumes "timer_case_panic p l = Some (p', l')"
  shows "write_error_kept e l'"
  using assms
  by (auto simp: write_error_kept_def timer_case_panic_def split: if_splits)

lemma emitter_done_keeps:
  assumes "write_error_kept e l" and "emitter_done l res = Some l'"
  shows "write_error_kept e l'"
  using assms
  by (auto simp: write_error_kept_def emitter_done_def errCh_cap_def Let_def
      split: if_splits list.splits option.splits exit.splits)

lemma step_keeps:
  assumes "i < length (acts s)" and "write_error_kept e (acts s ! i)"
    and "step s ev = Some s'"
  shows "i < length (acts s') \<and> write_error_kept e (acts s' ! i)"
proof (cases ev)
  case (Advance d)
  with assms show ?thesis by auto
next
  case (CallRun ctx cn ka)
  with assms show ?thesis
    by (auto simp: Run_entry_def nth_append split: if_splits option.splits)
next
  case (Cancel j)
  with assms have j: "j < length (acts s)"
    and s': "s' = s\<lparr>acts := (acts s)[j := (acts s ! j)\<lparr>ctx_done := True\<rparr>]\<rparr>"
    by (auto split: if_splits)
  have "write_error_kept e ((acts s ! i)\<lparr>ctx_done := True\<rparr>)"
    using assms(2)
    by (auto simp: write_error_kept_def split: option.splits exit.splits list.splits)
  with assms(1,2) j s' show ?thesis by (cases "j = i") simp_all
next
  case (Select j c)
  with assms obtain p' l' where j: "j < length (acts s)"
    and sel: "Run_select (pinger s) (acts s ! j) (clock s) c = Some (p', l')"
    and s': "s' = s\<lparr>pinger := p', acts := (acts s)[j := l']\<rparr>"
    by (auto split: if_splits option.splits)
  show ?thesis
  proof (cases "j = i")
    case True
    with Run_select_keeps[OF _ sel, of e] assms(1,2) s' show ?thesis by simp
  next
    case False
    with assms(1,2) s' show ?thesis by simp
  qed
next
  case (LoggerPanic j)
  with assms obtain p' l' where j: "j < length (acts s)"
    and pan: "timer_case_panic (pinger s) (acts s ! j) = Some (p', l')"
    and s': "s' = s\<lparr>pinger := p', acts := (acts s)[j := l']\<rparr>"
    by (auto split: if_splits option.splits)
  show ?thesis
  proof (cases "j = i")
    case True
    with timer_case_panic_keeps[OF pan, of e] assms(1) s' show ?thesis by simp
  next
    case False
    with assms(1,2) s' show ?thesis by simp
  qed
next
  case (WriteDone j res)
  with assms obtain l' where j: "j < length (acts s)"
    and em: "emitter_done (acts s ! j) res = Some l'"
    and s': "s' = s\<lparr>acts := (acts s)[j := l']\<rparr>"
    by (auto split: if_splits option.splits)
  show ?thesis
  proof (cases "j = i")
    case True
    with emitter_done_keeps[OF _ em, of e] assms(1,2) s' show ?thesis by simp
  next
    case False
    with assms(1,2) s' show ?thesis by simp
  qed
next
  case NotifySent
  with assms show ?thesis by auto
next
  case NotifyReceived
  with assms show ?thesis by auto
next
  case NotifyPingResp
  with assms show ?thesis by auto
qed

lemma exec_keeps:
  "i < length (acts s) \<Longrightarrow> write_error_kept e (acts s ! i) \<Longrightarrow> exec s evs = Some s'
     \<Longrightarrow> i < length (acts s') \<and> write_error_kept e (acts s' ! i)"
proof (induction evs arbitrary: s)
  case Nil
  then show ?case by simp
next
  case (Cons ev evs)
  then obtain s1 where st: "step s ev = Some s1" and ex: "exec s1 evs = Some s'"
    by (auto split: option.splits)
  from step_keeps[OF Cons.prems(1,2) st] have "i < length (acts s1)"
    and "write_error_kept e (acts s1 ! i)" by simp_all
  from Cons.IH[OF this ex] show ?case .
qed

lemma kept_in_loop_returns:
  assumes "i < length (acts s)" and "write_error_kept e (acts s ! i)"
    and "returned (acts s ! i) = None"
  shows "step s (Select i errChRecv)
           = Some (s\<lparr>pinger := (pinger s)\<lparr>running := False\<rparr>,
                      acts := (acts s)[i := (acts s ! i)
                        \<lparr>errCh := tl (errCh (acts s ! i)) @ take 1 (blocked (acts s ! i)),
                          blocked := drop 1 (blocked (acts s ! i)),
                          returned := Some (Returns (Some e))\<rparr>]\<rparr>)"
  using assms
  by (auto simp: write_error_kept_def Run_select_def deferred_def split: list.splits)

text \<open>
  Claim C7, as the code has it. When an emitter's write fails with \<open>err\<close> while the one
  slot of \<open>errCh\<close> is free, the send does not block: the error
  "failed to send PINGREQ: ..." wrapping \<open>err\<close> is in the buffer, whether \<open>Run\<close> is
  still in its loop or has been left (\<open>r\<close>). With \<open>Run\<close> in its loop, whatever events
  follow, in any order and number (ticks, notifications, cancellations, other writes
  returning, other calls of \<open>Run\<close>): as long as \<open>Run\<close> is in its loop that error is the
  next one \<open>errCh\<close> delivers, and the turn of the \<open>select\<close> that takes the case of
  \<open>errCh\<close> returns it and clears the running flag; and when \<open>Run\<close> has been left, it
  returned that error, or nil with its context done, or it left on the PINGRESP
  timeout. \<open>Unwrap\<close> gives \<open>err\<close> back. The channel has capacity 1.
\<close>

theorem write_failure_reaches_Run:
  assumes "i < length (acts s)" and "returned (acts s ! i) = None"
    and "writing (acts s ! i) \<noteq> 0" and "errCh (acts s ! i) = []"
    and "exec s (WriteDone i (Some err) # evs) = Some s'"
  shows "step s (WriteDone i (Some err))
           = Some (s\<lparr>acts := (acts s)[i := (acts s ! i)
                        \<lparr>writing := writing (acts s ! i) - 1,
                          errCh := [wrapError (''failed to send PINGREQ: '' @ Error err) err]\<rparr>]\<rparr>)
     \<and> i < length (acts s')
     \<and> ((returned (acts s' ! i) = None
          \<and> hd (errCh (acts s' ! i)) = wrapError (''failed to send PINGREQ: '' @ Error err) err
          \<and> errCh (acts s' ! i) \<noteq> []
          \<and> step s' (Select i errChRecv)
               = Some (s'\<lparr>pinger := (pinger s')\<lparr>running := False\<rparr>,
                      acts := (acts s')[i := (acts s' ! i)
                        \<lparr>errCh := tl (errCh (acts s' ! i)) @ take 1 (blocked (acts s' ! i)),
                          blocked := drop 1 (blocked (acts s' ! i)),
                          returned := Some (Returns (Some
                            (wrapError (''failed to send PINGREQ: '' @ Error err) err)))\<rparr>]\<rparr>))
        \<or> returned (acts s' ! i)
             = Some (Returns (Some (wrapError (''failed to send PINGREQ: '' @ Error err) err)))
        \<or> (returned (acts s' ! i) = Some (Returns None) \<and> ctx_done (acts s' ! i))
        \<or> returned (acts s' ! i) = Some (Returns (Some (errorString ''PINGRESP timed out'')))
        \<or> returned (acts s' ! i) = Some Panics)
     \<and> Unwrap (wrapError (''failed to send PINGREQ: '' @ Error err) err) = Some err
     \<and> emitter_done ((acts s ! i)\<lparr>returned := r\<rparr>) (Some err)
         = Some ((acts s ! i)\<lparr>returned := r, writing := writing (acts s ! i) - 1,
               errCh := [wrapError (''failed to send PINGREQ: '' @ Error err) err]\<rparr>)
     \<and> errCh_cap = 1"
proof -
  let ?e = "wrapError (''failed to send PINGREQ: '' @ Error err) err"
  let ?s1 = "s\<lparr>acts := (acts s)[i := (acts s ! i)
                        \<lparr>writing := writing (acts s ! i) - 1, errCh := [?e]\<rparr>]\<rparr>"
  have st: "step s (WriteDone i (Some err)) = Some ?s1"
    using assms(1-4) by (simp add: emitter_done_def Errorf_w_def errCh_cap_def Let_def)
  with assms(5) have ex: "exec ?s1 evs = Some s'" by simp
  have i1: "i < length (acts ?s1)" using assms(1) by simp
  have k1: "write_error_kept ?e (acts ?s1 ! i)"
    using assms(1,2) by (simp add: write_error_kept_def)
  from exec_keeps[OF i1 k1 ex] have i': "i < length (acts s')"
    and k': "write_error_kept ?e (acts s' ! i)" by simp_all
  have cases: "(returned (acts s' ! i) = None
          \<and> hd (errCh (acts s' ! i)) = ?e
          \<and> errCh (acts s' ! i) \<noteq> []
          \<and> step s' (Select i errChRecv)
               = Some (s'\<lparr>pinger := (pinger s')\<lparr>running := False\<rparr>,
                      acts := (acts s')[i := (acts s' ! i)
                        \<lparr>errCh := tl (errCh (acts s' ! i)) @ take 1 (blocked (acts s' ! i)),
                          blocked := drop 1 (blocked (acts s' ! i)),
                          returned := Some (Returns (Some ?e))\<rparr>]\<rparr>))
        \<or> returned (acts s' ! i) = Some (Returns (Some ?e))
        \<or> (returned (acts s' ! i) = Some (Returns None) \<and> ctx_done (acts s' ! i))
        \<or> returned (acts s' ! i) = Some (Returns (Some (errorString ''PINGRESP timed out'')))
        \<or> returned (acts s' ! i) = Some Panics"
  proof (cases "returned (acts s' ! i)")
    case None
    from kept_in_loop_returns[OF i' k' None] None k' show ?thesis
      by (auto simp: write_error_kept_def split: list.splits)
  next
    case (Some x)
    with k' show ?thesis
      by (auto simp: write_error_kept_def split: exit.splits option.splits)
  qed
  have u: "Unwrap ?e = Some err" by simp
  have em: "emitter_done ((acts s ! i)\<lparr>returned := r\<rparr>) (Some err)
         = Some ((acts s ! i)\<lparr>returned := r, writing := writing (acts s ! i) - 1,
               errCh := [?e]\<rparr>)"
    using assms(3,4) by (simp add: emitter_done_def Errorf_w_def errCh_cap_def Let_def)
  have c: "errCh_cap = 1" by (simp add: errCh_cap_def)
  from st i' cases u em c show ?thesis by blast
qed

theorem write_failure_reaches_Run_witness:
  "exec \<lparr>clock = 2500000000,
      pinger = \<lparr>lastPacketSent = 2400000000, lastPacketReceived = 2400000000,
                 lastPingResponse = 2200000000, running = True\<rparr>,
      acts = [\<lparr>ctx_done = False, conn = 7, interval = 1000000000, timer = 1000000000,
                lastPingSent = 2000000000, errCh = [], pingreqs = 1, writing = 1,
                blocked = [], returned = None\<rparr>]\<rparr>
     [WriteDone 0 (Some (errorString ''connection reset'')), Advance 500000000,
      Select 0 (timerC 3000000000), NotifySent, Select 0 errChRecv]
   = Some \<lparr>clock = 3000000000,
      pinger = \<lparr>lastPacketSent = 3000000000, lastPacketReceived = 2400000000,
                 lastPingResponse = 2200000000, running = False\<rparr>,
      acts = [\<lparr>ctx_done = False, conn = 7, interval = 1000000000, timer = 400000000,
                lastPingSent = 2000000000, errCh = [], pingreqs = 1, writing = 0,
                blocked = [],
                returned = Some (Returns (Some (wrapError ''failed to send PINGREQ: connection reset''
                                         (errorString ''connection reset''))))\<rparr>]\<rparr>
   \<and> step \<lparr>clock = 2500000000,
      pinger = \<lparr>lastPacketSent = 2400000000, lastPacketReceived = 2400000000,
                 lastPingResponse = 2200000000, running = True\<rparr>,
      acts = [\<lparr>ctx_done = False, conn = 7, interval = 1000000000, timer = 1000000000,
                lastPingSent = 2000000000, errCh = [], pingreqs = 1, writing = 1,
                blocked = [], returned = None\<rparr>]\<rparr>
        (WriteDone 0 (Some (errorString ''connection reset'')))
   = Some \<lparr>clock = 2500000000,
      pinger = \<lparr>lastPacketSent = 2400000000, lastPacketReceived = 2400000000,
                 lastPingResponse = 2200000000, running = True\<rparr>,
      acts = [\<lparr>ctx_done = False, conn = 7, interval = 1000000000, timer = 1000000000,
                lastPingSent = 2000000000,
                errCh = [wrapError ''failed to send PINGREQ: connection reset''
                           (errorString ''connection reset'')],
                pingreqs = 1, writing = 0, blocked = [], returned = None\<rparr>]\<rparr>
   \<and> Unwrap (wrapError ''failed to send PINGREQ: connection reset''
               (errorString ''connection reset''))
       = Some (errorString ''connection reset'')"
proof -
  let ?l = "\<lparr>ctx_done = False, conn = 7, interval = 1000000000, timer = 1000000000,
                lastPingSent = 2000000000, errCh = [], pingreqs = 1, writing = 1,
                blocked = [], returned = None\<rparr>"
  let ?s = "\<lparr>clock = 2500000000,
      pinger = \<lparr>lastPacketSent = 2400000000, lastPacketReceived = 2400000000,
                 lastPingResponse = 2200000000, running = True\<rparr>,
      acts = [?l]\<rparr>"
  let ?evs = "[Advance 500000000, Select 0 (timerC 3000000000), NotifySent, Select 0 errChRecv]"
  let ?s' = "\<lparr>clock = 3000000000,
      pinger = \<lparr>lastPacketSent = 3000000000, lastPacketReceived = 2400000000,
                 lastPingResponse = 2200000000, running = False\<rparr>,
      acts = [\<lparr>ctx_done = False, conn = 7, interval = 1000000000, timer = 400000000,
                lastPingSent = 2000000000, errCh = [], pingreqs = 1, writing = 0,
                blocked = [],
                returned = Some (Returns (Some (wrapError ''failed to send PINGREQ: connection reset''
                                         (errorString ''connection reset''))))\<rparr>]\<rparr>"
  have 1: "0 < length (acts ?s)" by simp
  have 2: "returned (acts ?s ! 0) = None" by simp
  have 3: "writing (acts ?s ! 0) \<noteq> 0" by simp
  have 4: "errCh (acts ?s ! 0) = []" by simp
  have 5: "exec ?s (WriteDone 0 (Some (errorString ''connection reset'')) # ?evs) = Some ?s'"
    by (simp add: emitter_done_def Errorf_w_def errCh_cap_def Run_select_def timer_case_def
        pingDue_def Before_def After_def Add_def IsZero_def Sub_def minDuration_def
        maxDuration_def PacketSent_def deferred_def)
  from write_failure_reaches_Run
    [where i = 0 and s = ?s and err = "errorString ''connection reset''" and r = None,
     OF 1 2 3 4 5]
  have "step ?s (WriteDone 0 (Some (errorString ''connection reset'')))
     = Some (?s\<lparr>acts := (acts ?s)[0 := (acts ?s ! 0)
                        \<lparr>writing := writing (acts ?s ! 0) - 1,
                          errCh := [wrapError (''failed to send PINGREQ: '' @ Error (errorString ''connection reset'')) (errorString ''connection reset'')]\<rparr>]\<rparr>)"
    and "Unwrap (wrapError (''failed to send PINGREQ: '' @ Error (errorString ''connection reset'')) (errorString ''connection reset'')) = Some (errorString ''connection reset'')"
    by blast+
  with 5 show ?thesis by simp
qed

text \<open>
  Two runs where the claim as stated fails. In the first the context is cancelled, the
  write fails, and the \<open>select\<close> takes the case of the context: \<open>Run\<close> returns nil
  with the error still in the buffer. In the second a PINGRESP is reported while the
  first write is pending, a second emitter is started, both writes fail, and the second
  emitter is left blocked on the full channel.
\<close>

theorem write_failure_not_always_returned:
  "exec (boot 2000000000)
     [CallRun False (Some 7) 1, Select 0 (timerC 2000000000), Cancel 0,
      WriteDone 0 (Some (errorString ''connection reset'')), Select 0 ctxDone]
   = Some \<lparr>clock = 2000000000,
      pinger = \<lparr>lastPacketSent = 0, lastPacketReceived = 0, lastPingResponse = 0,
                 running = False\<rparr>,
      acts = [\<lparr>ctx_done = True, conn = 7, interval = 1000000000, timer = 1000000000,
                lastPingSent = 2000000000,
                errCh = [wrapError ''failed to send PINGREQ: connection reset''
                           (errorString ''connection reset'')],
                pingreqs = 1, writing = 0, blocked = [], returned = Some (Returns None)\<rparr>]\<rparr>
   \<and> exec (boot 2000000000)
     [CallRun False (Some 7) 1, Select 0 (timerC 2000000000), NotifyPingResp,
      Advance 1000000000, Select 0 (timerC 3000000000),
      WriteDone 0 (Some (errorString ''connection reset'')),
      WriteDone 0 (Some (errorString ''broken pipe''))]
   = Some \<lparr>clock = 3000000000,
      pinger = \<lparr>lastPacketSent = 0, lastPacketReceived = 0,
                 lastPingResponse = 2000000000, running = True\<rparr>,
      acts = [\<lparr>ctx_done = False, conn = 7, interval = 1000000000, timer = 1000000000,
                lastPingSent = 3000000000,
                errCh = [wrapError ''failed to send PINGREQ: connection reset''
                           (errorString ''connection reset'')],
                pingreqs = 2, writing = 0,
                blocked = [wrapError ''failed to send PINGREQ: broken pipe''
                             (errorString ''broken pipe'')],
                returned = None\<rparr>]\<rparr>"
  by (simp add: boot_def NewDefaultPinger_def Run_entry_def Run_select_def timer_case_def
      pingDue_def Before_def After_def Add_def IsZero_def keepAlive_interval_1
      emitter_done_def Errorf_w_def errCh_cap_def deferred_def PingResp_def)

section \<open>The running flag\<close>

lemma filter_update_count:
  "i < length xs \<Longrightarrow>
     length (filter P (xs[i := y])) + (if P (xs ! i) then 1 else 0)
       = length (filter P xs) + (if P y then 1 else 0)"
proof (induction xs arbitrary: i)
  case Nil
  then show ?case by simp
next
  case (Cons x xs)
  show ?case
  proof (cases i)
    case 0
    then show ?thesis by simp
  next
    case (Suc j)
    with Cons.prems have "j < length xs" by simp
    from Cons.IH[OF this] Suc show ?thesis by simp
  qed
qed

lemma filter_mem_pos: "i < length xs \<Longrightarrow> P (xs ! i) \<Longrightarrow> 0 < length (filter P xs)"
  by (metis filter_empty_conv length_greater_0_conv nth_mem)

lemma Run_select_cases:
  assumes "Run_select p l now c = Some (p', l')"
  shows "in_loop l \<and> ((in_loop l' \<and> running p' = running p) \<or> (\<not> in_loop l' \<and> \<not> running p'))"
  using assms
  by (auto simp: Run_select_def timer_case_def deferred_def in_loop_def Let_def
      split: if_splits select_case.splits list.splits)

lemma timer_case_panic_cases:
  assumes "timer_case_panic p l = Some (p', l')"
  shows "in_loop l \<and> \<not> in_loop l' \<and> \<not> running p' \<and> returned l' = Some Panics
     \<and> lastPacketSent p' = lastPacketSent p \<and> lastPacketReceived p' = lastPacketReceived p
     \<and> lastPingResponse p' = lastPingResponse p"
  using assms
  by (auto simp: timer_case_panic_def deferred_def in_loop_def split: if_splits)

lemma emitter_done_in_loop:
  "emitter_done l res = Some l' \<Longrightarrow> in_loop l' = in_loop l"
  by (auto simp: emitter_done_def in_loop_def Let_def split: if_splits option.splits)

lemma step_one_holder:
  assumes "one_holder s" and "step s e = Some s'"
  shows "one_holder s'"
proof (cases e)
  case (Advance d)
  with assms show ?thesis by (auto simp: one_holder_def)
next
  case (CallRun ctx cn ka)
  with assms show ?thesis
    by (auto simp: one_holder_def Run_entry_def in_loop_def split: if_splits option.splits)
next
  case (Cancel i)
  with assms have i: "i < length (acts s)"
    and s': "s' = s\<lparr>acts := (acts s)[i := (acts s ! i)\<lparr>ctx_done := True\<rparr>]\<rparr>"
    by (auto split: if_splits)
  from filter_update_count[OF i, of in_loop "(acts s ! i)\<lparr>ctx_done := True\<rparr>"]
  have "length (filter in_loop ((acts s)[i := (acts s ! i)\<lparr>ctx_done := True\<rparr>]))
          = length (filter in_loop (acts s))"
    by (simp add: in_loop_def)
  with assms(1) s' show ?thesis by (simp add: one_holder_def)
next
  case (Select i c)
  with assms obtain p' l' where i: "i < length (acts s)"
    and sel: "Run_select (pinger s) (acts s ! i) (clock s) c = Some (p', l')"
    and s': "s' = s\<lparr>pinger := p', acts := (acts s)[i := l']\<rparr>"
    by (auto split: if_splits option.splits)
  note cnt = filter_update_count[OF i, of in_loop l']
  from Run_select_cases[OF sel] have a: "in_loop (acts s ! i)"
    and d: "(in_loop l' \<and> running p' = running (pinger s)) \<or> (\<not> in_loop l' \<and> \<not> running p')"
    by simp_all
  from filter_mem_pos[OF i, of in_loop] a have pos: "0 < length (filter in_loop (acts s))" by simp
  from d show ?thesis
  proof
    assume "in_loop l' \<and> running p' = running (pinger s)"
    with cnt a assms(1) s' show ?thesis by (simp add: one_holder_def)
  next
    assume "\<not> in_loop l' \<and> \<not> running p'"
    with cnt a pos assms(1) s' show ?thesis by (simp add: one_holder_def split: if_splits)
  qed
next
  case (LoggerPanic i)
  with assms obtain p' l' where i: "i < length (acts s)"
    and pan: "timer_case_panic (pinger s) (acts s ! i) = Some (p', l')"
    and s': "s' = s\<lparr>pinger := p', acts := (acts s)[i := l']\<rparr>"
    by (auto split: if_splits option.splits)
  note cnt = filter_update_count[OF i, of in_loop l']
  from timer_case_panic_cases[OF pan] have a: "in_loop (acts s ! i)"
    and d: "\<not> in_loop l'" "\<not> running p'"
    by simp_all
  from filter_mem_pos[OF i, of in_loop] a have "0 < length (filter in_loop (acts s))" by simp
  with cnt a d assms(1) s' show ?thesis by (simp add: one_holder_def split: if_splits)
next
  case (WriteDone i res)
  with assms obtain l' where i: "i < length (acts s)"
    and em: "emitter_done (acts s ! i) res = Some l'"
    and s': "s' = s\<lparr>acts := (acts s)[i := l']\<rparr>"
    by (auto split: if_splits option.splits)
  from filter_update_count[OF i, of in_loop l'] emitter_done_in_loop[OF em]
  have "length (filter in_loop ((acts s)[i := l'])) = length (filter in_loop (acts s))"
    by simp
  with assms(1) s' show ?thesis by (simp add: one_holder_def)
next
  case NotifySent
  with assms show ?thesis by (auto simp: one_holder_def PacketSent_def)
next
  case NotifyReceived
  with assms show ?thesis by (auto simp: one_holder_def PacketReceived_def)
next
  case NotifyPingResp
  with assms show ?thesis by (auto simp: one_holder_def PingResp_def)
qed

lemma exec_one_holder:
  "one_holder s \<Longrightarrow> exec s evs = Some s' \<Longrightarrow> one_holder s'"
proof (induction evs arbitrary: s)
  case Nil
  then show ?case by simp
next
  case (Cons e evs)
  then obtain s1 where "step s e = Some s1" and "exec s1 evs = Some s'"
    by (auto split: option.splits)
  with Cons.IH step_one_holder[OF Cons.prems(1)] show ?case by blast
qed

lemma boot_one_holder: "one_holder (boot c)"
  by (simp add: one_holder_def boot_def NewDefaultPinger_def)

lemma Run_select_exit_resets:
  "(case Run_select p l now sc of
      None \<Rightarrow> True
    | Some (p', l') \<Rightarrow> running p' = (running p \<and> returned l' = None))"
  by (auto simp: Run_select_def timer_case_def deferred_def Let_def
      split: if_splits select_case.splits list.splits option.splits)

lemma timer_case_panic_exit:
  "(case timer_case_panic p l of
      None \<Rightarrow> True
    | Some (p', l') \<Rightarrow> \<not> running p' \<and> returned l' = Some Panics)"
  by (auto simp: timer_case_panic_def deferred_def split: option.splits)

text \<open>
  Claim C4. In every state reached from a new pinger, by any events, the activations in
  their loop are exactly one when the running flag is set and none when it is clear.
  The entry of \<open>Run\<close> sets the flag exactly when the keepalive is not 0, the transport
  is not nil and the flag is clear, and otherwise leaves the pinger as it is; with the
  flag set (and valid arguments) it returns "Run() already in progress" and the whole
  system, the active \<open>Run\<close> included, is unchanged. A turn of the loop clears the flag
  exactly when it returns, with or without an error. The turn that panics, which is
  there exactly for a \<open>Run\<close> in its loop with an unanswered ping, leaves \<open>Run\<close> with the
  flag cleared as well. A \<open>Run\<close> that was left, either way, takes no further turn, so
  the flag is cleared once.
\<close>

theorem running_flag_single_holder:
  assumes "exec (boot c) evs = Some s"
  shows "length (filter in_loop (acts s)) = (if running (pinger s) then 1 else 0)
     \<and> snd (Run_entry (pinger s) ctx cn ka)
         = (if ka \<noteq> 0 \<and> cn \<noteq> None \<and> \<not> running (pinger s)
            then (pinger s)\<lparr>running := True\<rparr> else pinger s)
     \<and> (fst (Run_entry (pinger s) ctx cn ka)
           = Return (Some (errorString ''Run() already in progress'')))
         = (ka \<noteq> 0 \<and> cn \<noteq> None \<and> running (pinger s))
     \<and> (step s (CallRun ctx cn ka) = Some s) = (ka = 0 \<or> cn = None \<or> running (pinger s))
     \<and> (case Run_select p l now sc of
           None \<Rightarrow> True
         | Some (p', l') \<Rightarrow> running p' = (running p \<and> returned l' = None))
     \<and> (timer_case_panic p l \<noteq> None)
         = (returned l = None \<and> lastPingSent l \<noteq> 0 \<and> lastPingResponse p < lastPingSent l)
     \<and> (case timer_case_panic p l of
           None \<Rightarrow> True
         | Some (p', l') \<Rightarrow> \<not> running p' \<and> returned l' = Some Panics)
     \<and> Run_select p (l\<lparr>returned := Some r\<rparr>) now sc = None
     \<and> timer_case_panic p (l\<lparr>returned := Some r\<rparr>) = None"
proof -
  from exec_one_holder[OF boot_one_holder assms]
  have 1: "length (filter in_loop (acts s)) = (if running (pinger s) then 1 else 0)"
    by (simp add: one_holder_def)
  have 2: "snd (Run_entry (pinger s) ctx cn ka)
         = (if ka \<noteq> 0 \<and> cn \<noteq> None \<and> \<not> running (pinger s)
            then (pinger s)\<lparr>running := True\<rparr> else pinger s)"
    by (auto simp: Run_entry_def split: option.splits)
  have 3: "(fst (Run_entry (pinger s) ctx cn ka)
           = Return (Some (errorString ''Run() already in progress'')))
         = (ka \<noteq> 0 \<and> cn \<noteq> None \<and> running (pinger s))"
    by (auto simp: Run_entry_def split: option.splits)
  have "acts s @ [x] \<noteq> acts s" for x by simp
  hence neq: "s\<lparr>pinger := q, acts := acts s @ [x]\<rparr> \<noteq> s" for q x
    by (metis system.select_convs(3) system.surjective system.update_convs(2,3))
  have 4: "(step s (CallRun ctx cn ka) = Some s) = (ka = 0 \<or> cn = None \<or> running (pinger s))"
    using neq by (auto simp: Run_entry_def split: option.splits)
  have 5: "(timer_case_panic p l \<noteq> None)
         = (returned l = None \<and> lastPingSent l \<noteq> 0 \<and> lastPingResponse p < lastPingSent l)"
    by (simp add: timer_case_panic_def IsZero_def After_def)
  have 6: "Run_select p (l\<lparr>returned := Some r\<rparr>) now sc = None"
    by (simp add: Run_select_def)
  have 7: "timer_case_panic p (l\<lparr>returned := Some r\<rparr>) = None"
    by (simp add: timer_case_panic_def)
  from 1 2 3 4 5 6 7 Run_select_exit_resets[of p l now sc] timer_case_panic_exit[of p l]
  show ?thesis by blast
qed

theorem running_flag_single_holder_witness:
  "exec (boot 2000000000)
     [CallRun False (Some 7) 1, Select 0 (timerC 2000000000), CallRun False (Some 8) 2,
      Advance 1000000000, LoggerPanic 0, CallRun False (Some 8) 2]
     = Some \<lparr>clock = 3000000000,
      pinger = \<lparr>lastPacketSent = 0, lastPacketReceived = 0, lastPingResponse = 0,
                 running = True\<rparr>,
      acts = [\<lparr>ctx_done = False, conn = 7, interval = 1000000000, timer = 1000000000,
                lastPingSent = 2000000000, errCh = [], pingreqs = 1, writing = 1,
                blocked = [], returned = Some Panics\<rparr>,
              \<lparr>ctx_done = False, conn = 8, interval = 2000000000, timer = 0,
                lastPingSent = 0, errCh = [], pingreqs = 0, writing = 0,
                blocked = [], returned = None\<rparr>]\<rparr>
   \<and> length (filter in_loop
        [\<lparr>ctx_done = False, conn = 7, interval = 1000000000, timer = 1000000000,
                lastPingSent = 2000000000, errCh = [], pingreqs = 1, writing = 1,
                blocked = [], returned = Some Panics\<rparr>,
         \<lparr>ctx_done = False, conn = 8, interval = 2000000000, timer = 0,
                lastPingSent = 0, errCh = [], pingreqs = 0, writing = 0,
                blocked = [], returned = None\<rparr>]) = 1
   \<and> Run_entry \<lparr>lastPacketSent = 0, lastPacketReceived = 0, lastPingResponse = 0,
                 running = True\<rparr> False (Some 9) 3
       = (Return (Some (errorString ''Run() already in progress'')),
          \<lparr>lastPacketSent = 0, lastPacketReceived = 0, lastPingResponse = 0,
                 running = True\<rparr>)"
proof -
  have e: "exec (boot 2000000000)
     [CallRun False (Some 7) 1, Select 0 (timerC 2000000000), CallRun False (Some 8) 2,
      Advance 1000000000, LoggerPanic 0, CallRun False (Some 8) 2]
     = Some \<lparr>clock = 3000000000,
      pinger = \<lparr>lastPacketSent = 0, lastPacketReceived = 0, lastPingResponse = 0,
                 running = True\<rparr>,
      acts = [\<lparr>ctx_done = False, conn = 7, interval = 1000000000, timer = 1000000000,
                lastPingSent = 2000000000, errCh = [], pingreqs = 1, writing = 1,
                blocked = [], returned = Some Panics\<rparr>,
              \<lparr>ctx_done = False, conn = 8, interval = 2000000000, timer = 0,
                lastPingSent = 0, errCh = [], pingreqs = 0, writing = 0,
                blocked = [], returned = None\<rparr>]\<rparr>"
    by (simp add: boot_def NewDefaultPinger_def Run_entry_def Run_select_def timer_case_def
        pingDue_def Before_def After_def Add_def IsZero_def keepAlive_interval_1
        keepAlive_interval_2 timer_case_panic_def deferred_def)
  from running_flag_single_holder[OF e, of False "Some 9" 3] e show ?thesis
    by (simp add: Run_entry_def)
qed

section \<open>The traffic timestamps\<close>

lemma stamps_kept_refl: "stamps_kept p p"
  by (simp add: stamps_kept_def)

lemma stamps_kept_trans: "stamps_kept p q \<Longrightarrow> stamps_kept q r \<Longrightarrow> stamps_kept p r"
  by (auto simp: stamps_kept_def)

lemma Run_select_stamps:
  "Run_select p l now c = Some (p', l') \<Longrightarrow>
     lastPacketSent p' = lastPacketSent p \<and> lastPacketReceived p' = lastPacketReceived p \<and>
     lastPingResponse p' = lastPingResponse p"
  by (auto simp: Run_select_def timer_case_def deferred_def Let_def
      split: if_splits select_case.splits list.splits)

lemma step_stamps:
  assumes "clock_ok s" and "step s e = Some s'"
  shows "clock_ok s' \<and> stamps_kept (pinger s) (pinger s')"
proof (cases e)
  case (Advance d)
  with assms show ?thesis by (auto simp: clock_ok_def stamps_kept_def)
next
  case (CallRun ctx cn ka)
  with assms show ?thesis
    by (auto simp: clock_ok_def stamps_kept_def Run_entry_def split: if_splits option.splits)
next
  case (Cancel i)
  with assms show ?thesis by (auto simp: clock_ok_def stamps_kept_def split: if_splits)
next
  case (Select i c)
  with assms obtain p' l' where
    sel: "Run_select (pinger s) (acts s ! i) (clock s) c = Some (p', l')"
    and s': "s' = s\<lparr>pinger := p', acts := (acts s)[i := l']\<rparr>"
    by (auto split: if_splits option.splits)
  from Run_select_stamps[OF sel] assms(1) s' show ?thesis
    by (simp add: clock_ok_def stamps_kept_def)
next
  case (LoggerPanic i)
  with assms obtain p' l' where
    pan: "timer_case_panic (pinger s) (acts s ! i) = Some (p', l')"
    and s': "s' = s\<lparr>pinger := p', acts := (acts s)[i := l']\<rparr>"
    by (auto split: if_splits option.splits)
  from timer_case_panic_cases[OF pan] assms(1) s' show ?thesis
    by (simp add: clock_ok_def stamps_kept_def)
next
  case (WriteDone i res)
  with assms show ?thesis
    by (auto simp: clock_ok_def stamps_kept_def split: if_splits option.splits)
next
  case NotifySent
  with assms show ?thesis by (auto simp: clock_ok_def stamps_kept_def PacketSent_def)
next
  case NotifyReceived
  with assms show ?thesis by (auto simp: clock_ok_def stamps_kept_def PacketReceived_def)
next
  case NotifyPingResp
  with assms show ?thesis by (auto simp: clock_ok_def stamps_kept_def PingResp_def)
qed

lemma exec_stamps:
  "clock_ok s \<Longrightarrow> exec s evs = Some s' \<Longrightarrow> clock_ok s' \<and> stamps_kept (pinger s) (pinger s')"
proof (induction evs arbitrary: s)
  case Nil
  then show ?case by (simp add: stamps_kept_refl)
next
  case (Cons e evs)
  then obtain s1 where st: "step s e = Some s1" and ex: "exec s1 evs = Some s'"
    by (auto split: option.splits)
  from step_stamps[OF Cons.prems(1) st] have "clock_ok s1" and k: "stamps_kept (pinger s) (pinger s1)"
    by simp_all
  from Cons.IH[OF this(1) ex] k show ?case by (blast intro: stamps_kept_trans)
qed

text \<open>
  Claim C8. From a state whose stored timestamps are not ahead of the clock and whose
  clock is past the zero instant (a new pinger is such), take any sequence of events,
  the calls of \<open>PacketSent\<close>, \<open>PacketReceived\<close> and \<open>PingResp\<close> among them in any order,
  and then any further sequence: each of the three stored timestamps is at least what
  it was, and one that was not the zero time is not the zero time.
\<close>

theorem traffic_timestamps_monotone:
  assumes "clock_ok s" and "exec s evs = Some s1" and "exec s1 evs' = Some s2"
  shows "lastPacketSent (pinger s1) \<le> lastPacketSent (pinger s2)
     \<and> lastPacketReceived (pinger s1) \<le> lastPacketReceived (pinger s2)
     \<and> lastPingResponse (pinger s1) \<le> lastPingResponse (pinger s2)
     \<and> (lastPacketSent (pinger s1) \<noteq> 0 \<longrightarrow> lastPacketSent (pinger s2) \<noteq> 0)
     \<and> (lastPacketReceived (pinger s1) \<noteq> 0 \<longrightarrow> lastPacketReceived (pinger s2) \<noteq> 0)
     \<and> (lastPingResponse (pinger s1) \<noteq> 0 \<longrightarrow> lastPingResponse (pinger s2) \<noteq> 0)"
proof -
  from exec_stamps[OF assms(1,2)] have "clock_ok s1" by simp
  from exec_stamps[OF this assms(3)] show ?thesis by (simp add: stamps_kept_def)
qed

theorem traffic_timestamps_monotone_witness:
  "clock_ok (boot 5)
   \<and> exec (boot 5) [NotifySent, Advance 2, NotifyPingResp]
       = Some \<lparr>clock = 7, pinger = \<lparr>lastPacketSent = 5, lastPacketReceived = 0,
                  lastPingResponse = 7, running = False\<rparr>, acts = []\<rparr>
   \<and> exec \<lparr>clock = 7, pinger = \<lparr>lastPacketSent = 5, lastPacketReceived = 0,
                  lastPingResponse = 7, running = False\<rparr>, acts = []\<rparr>
        [Advance 3, NotifyReceived, NotifySent, NotifySent]
       = Some \<lparr>clock = 10, pinger = \<lparr>lastPacketSent = 10, lastPacketReceived = 10,
                  lastPingResponse = 7, running = False\<rparr>, acts = []\<rparr>
   \<and> (5::int) \<le> 10 \<and> (0::int) \<le> 10 \<and> (7::int) \<le> 7 \<and> (10::int) \<noteq> 0 \<and> (7::int) \<noteq> 0"
proof -
  have c: "clock_ok (boot 5)"
    by (simp add: clock_ok_def boot_def NewDefaultPinger_def)
  have e1: "exec (boot 5) [NotifySent, Advance 2, NotifyPingResp]
       = Some \<lparr>clock = 7, pinger = \<lparr>lastPacketSent = 5, lastPacketReceived = 0,
                  lastPingResponse = 7, running = False\<rparr>, acts = []\<rparr>"
    by (simp add: boot_def NewDefaultPinger_def PacketSent_def PingResp_def)
  have e2: "exec \<lparr>clock = 7, pinger = \<lparr>lastPacketSent = 5, lastPacketReceived = 0,
                  lastPingResponse = 7, running = False\<rparr>, acts = []\<rparr>
        [Advance 3, NotifyReceived, NotifySent, NotifySent]
       = Some \<lparr>clock = 10, pinger = \<lparr>lastPacketSent = 10, lastPacketReceived = 10,
                  lastPingResponse = 7, running = False\<rparr>, acts = []\<rparr>"
    by (simp add: PacketSent_def PacketReceived_def)
  from traffic_timestamps_monotone[OF c e1 e2] c e1 e2 show ?thesis by simp
qed

section \<open>The properties of a CONNECT packet\<close>

text \<open>
  Claim C2 asks that each request flag be driven by its own source field. The code
  reads \<open>*p.RequestProblemInfo\<close> for both: with \<open>RequestResponseInfo\<close> pointing to 1
  and \<open>RequestProblemInfo\<close> pointing to 0 the result has \<open>RequestResponseInfo\<close> false,
  and with \<open>RequestProblemInfo\<close> nil the call panics.
\<close>

theorem InitProperties_response_info_from_problem_info:
  "InitProperties f c (Some (p\<lparr>pk_RequestResponseInfo := Some 1, pk_RequestProblemInfo := Some 0\<rparr>))
     = Inr (c\<lparr>Properties := Some
         \<lparr>AuthData = pk_AuthData p,
                    AuthMethod = pk_AuthMethod p,
                    SessionExpiryInterval = pk_SessionExpiryInterval p,
                    WillDelayInterval = pk_WillDelayInterval p,
                    ReceiveMaximum = pk_ReceiveMaximum p,
                    TopicAliasMaximum = pk_TopicAliasMaximum p,
                    MaximumPacketSize = pk_MaximumPacketSize p,
                    User = f (pk_User p),
                    RequestProblemInfo = False,
                    RequestResponseInfo = False\<rparr>\<rparr>)
   \<and> InitProperties f c (Some (p\<lparr>pk_RequestResponseInfo := Some 1, pk_RequestProblemInfo := None\<rparr>))
     = Inl NilPointerDereference"
  by (simp add: InitProperties_def)

end
